theory Spec2Isabelle
  imports Main "HOL-Library.AList"
begin

section \<open>Strings\<close>

text \<open>
  A JavaScript string is modelled as a \<^typ>\<open>string\<close>; a character stands for a code unit
  below 256.  \<open>is_space\<close> holds for the code units among them that
  \<open>String.prototype.trim\<close> and the regular-expression class \<open>\s\<close> treat as white space:
  tab, line feed, vertical tab, form feed, carriage return, space and no-break space.
\<close>

definition is_space :: "char \<Rightarrow> bool" where
  "is_space c \<longleftrightarrow>
     c = CHR '' '' \<or> c = CHR 0x09 \<or> c = CHR 0x0A \<or> c = CHR 0x0B \<or> c = CHR 0x0C \<or>
     c = CHR 0x0D \<or> c = CHR 0xA0"

definition trim :: "string \<Rightarrow> string" where
  "trim s = rev (dropWhile is_space (rev (dropWhile is_space s)))"

section \<open>The LCS table\<close>

text \<open>
  Both \<open>performLcsDiff\<close> and \<open>createDiff\<close> allocate an \<open>(m + 1) \<times> (n + 1)\<close> table of zeros
  and fill it with the same pair of nested loops; only the equality test differs.
\<close>

definition set_cell :: "nat list list \<Rightarrow> nat \<Rightarrow> nat \<Rightarrow> nat \<Rightarrow> nat list list" where
  "set_cell dp i j v = dp[i := (dp ! i)[j := v]]"

definition lcs_table :: "('a \<Rightarrow> 'b \<Rightarrow> bool) \<Rightarrow> 'a list \<Rightarrow> 'b list \<Rightarrow> nat list list" where
  "lcs_table eq xs ys =
     (let m = length xs; n = length ys in
      fold (\<lambda>i dp.
              fold (\<lambda>j dp.
                      set_cell dp i j
                        (if eq (xs ! (i - 1)) (ys ! (j - 1))
                         then dp ! (i - 1) ! (j - 1) + 1
                         else max (dp ! (i - 1) ! j) (dp ! i ! (j - 1))))
                   [1..<n + 1] dp)
           [1..<m + 1] (replicate (m + 1) (replicate (n + 1) 0)))"

section \<open>The word diff engine (TextDiff.tsx)\<close>

datatype DiffType = Diff_COMMON | Diff_ADDED | Diff_DELETED

record DiffSegment =
  seg_type :: DiffType
  seg_value :: string

subsection \<open>Tokens: \<open>s.split(/(<[^>]+>|\s+)/).filter(Boolean)\<close>\<close>

text \<open>
  \<open>match_tag\<close> is the first alternative of the regular expression tried at the head of the
  input: a \<open><\<close>, at least one character other than \<open>>\<close>, and the next \<open>>\<close>.  The result is
  the matched text and the input after it.
\<close>

definition match_tag :: "string \<Rightarrow> (string \<times> string) option" where
  "match_tag s =
     (case s of
        [] \<Rightarrow> None
      | c # rest \<Rightarrow>
          if c = CHR ''<'' \<and> rest \<noteq> [] \<and> hd rest \<noteq> CHR ''>'' \<and> CHR ''>'' \<in> set rest
          then Some (c # takeWhile (\<lambda>x. x \<noteq> CHR ''>'') rest @ [CHR ''>''],
                     tl (dropWhile (\<lambda>x. x \<noteq> CHR ''>'') rest))
          else None)"

text \<open>The second alternative: a maximal run of white space.\<close>

definition match_space :: "string \<Rightarrow> (string \<times> string) option" where
  "match_space s =
     (if s \<noteq> [] \<and> is_space (hd s)
      then Some (takeWhile is_space s, dropWhile is_space s)
      else None)"

definition match_sep :: "string \<Rightarrow> (string \<times> string) option" where
  "match_sep s = (case match_tag s of Some r \<Rightarrow> Some r | None \<Rightarrow> match_space s)"

lemma match_sep_shorter:
  assumes "match_sep s = Some (tok, rest)"
  shows "length rest < length s"
proof (cases "match_tag s")
  case None
  with assms have "match_space s = Some (tok, rest)"
    by (simp add: match_sep_def)
  then have ne: "s \<noteq> []" and sp: "is_space (hd s)" and r: "rest = dropWhile is_space s"
    by (auto simp: match_space_def split: if_splits)
  from ne sp obtain c cs where "s = c # cs" "is_space c"
    by (cases s) auto
  with r show ?thesis
    by (simp add: length_dropWhile_le le_imp_less_Suc)
next
  case (Some p)
  with assms have "match_tag s = Some (tok, rest)"
    by (simp add: match_sep_def)
  then obtain c cs where s: "s = c # cs"
    and r: "rest = tl (dropWhile (\<lambda>x. x \<noteq> CHR ''>'') cs)"
    by (auto simp: match_tag_def split: list.splits if_splits)
  have "length (tl (dropWhile (\<lambda>x. x \<noteq> CHR ''>'') cs)) \<le> length cs"
    using length_dropWhile_le [of "\<lambda>x. x \<noteq> CHR ''>''" cs] by simp
  with s r show ?thesis
    by simp
qed

text \<open>
  \<open>String.prototype.split\<close> with a capturing group: the text before each match, then the
  match itself, and at the end the text after the last match.  \<open>cur\<close> is the text read since
  the last match.
\<close>

function split_regex :: "string \<Rightarrow> string \<Rightarrow> string list" where
  "split_regex cur [] = [cur]"
| "split_regex cur (c # cs) =
     (case match_sep (c # cs) of
        Some (tok, rest) \<Rightarrow> cur # tok # split_regex [] rest
      | None \<Rightarrow> split_regex (cur @ [c]) cs)"
  by pat_completeness auto
termination
  by (relation "measure (\<lambda>(cur, s). length s)") (auto dest: match_sep_shorter)

definition words :: "string \<Rightarrow> string list" where
  "words s = filter (\<lambda>w. w \<noteq> []) (split_regex [] s)"

subsection \<open>\<open>createDiff\<close>\<close>

function diff_backtrack ::
  "string list \<Rightarrow> string list \<Rightarrow> nat list list \<Rightarrow> nat \<Rightarrow> nat \<Rightarrow> DiffSegment list \<Rightarrow> DiffSegment list"
where
  "diff_backtrack originalWords revisedWords dp i j diff =
     (if i > 0 \<or> j > 0 then
        if i > 0 \<and> j > 0 \<and> originalWords ! (i - 1) = revisedWords ! (j - 1) then
          diff_backtrack originalWords revisedWords dp (i - 1) (j - 1)
            (\<lparr>seg_type = Diff_COMMON, seg_value = originalWords ! (i - 1)\<rparr> # diff)
        else if j > 0 \<and> (i = 0 \<or> dp ! i ! (j - 1) \<ge> dp ! (i - 1) ! j) then
          diff_backtrack originalWords revisedWords dp i (j - 1)
            (\<lparr>seg_type = Diff_ADDED, seg_value = revisedWords ! (j - 1)\<rparr> # diff)
        else if i > 0 \<and> (j = 0 \<or> dp ! i ! (j - 1) < dp ! (i - 1) ! j) then
          diff_backtrack originalWords revisedWords dp (i - 1) j
            (\<lparr>seg_type = Diff_DELETED, seg_value = originalWords ! (i - 1)\<rparr> # diff)
        else diff
      else diff)"
  by pat_completeness auto
termination
  by (relation "measure (\<lambda>(ow, rw, dp, i, j, diff). i + j)") auto

declare diff_backtrack.simps [simp del]

definition createDiff :: "string \<Rightarrow> string \<Rightarrow> DiffSegment list" where
  "createDiff original revised =
     (let originalWords = words original;
          revisedWords = words revised;
          m = length originalWords;
          n = length revisedWords;
          dp = lcs_table (=) originalWords revisedWords
      in diff_backtrack originalWords revisedWords dp m n [])"

subsection \<open>The \<open>TextDiff\<close> component\<close>

text \<open>
  What the component returns.  In the first branch it is one plain \<open>span\<close> holding the
  markup, with no \<open>key\<close>.  In the second it is a \<open>span\<close> around the children that
  \<open>diffs.map((part, index) => ...)\<close> makes, each with its index as \<open>key\<close>: a highlighted
  \<open>span\<close> for added text, a \<open>del\<close> for deleted text, a plain \<open>span\<close> otherwise.
\<close>

datatype element =
    Span "nat option" string
  | AddedSpan nat string
  | Del nat string
  | SpanOf "element list"

definition render_part :: "nat \<Rightarrow> DiffSegment \<Rightarrow> element" where
  "render_part index part =
     (case seg_type part of
        Diff_ADDED \<Rightarrow> AddedSpan index (seg_value part)
      | Diff_DELETED \<Rightarrow> Del index (seg_value part)
      | Diff_COMMON \<Rightarrow> Span (Some index) (seg_value part))"

definition TextDiff :: "string \<Rightarrow> string \<Rightarrow> element" where
  "TextDiff originalText revisedText =
     (if originalText = revisedText then Span None originalText
      else
        let diffs = createDiff originalText revisedText
        in SpanOf (map (\<lambda>(index, part). render_part index part) (enumerate 0 diffs)))"

section \<open>Text normalisation (App.tsx)\<close>

text \<open>
  \<open>getCleanTextContent\<close> and \<open>getFirstTwoLinesKey\<close> hand the markup to the browser: they
  assign it to \<open>innerHTML\<close> of a fresh \<open>div\<close> and read \<open>textContent\<close> back.  The browser is
  not part of the repository, so that step is the parameter \<open>textContent\<close> of every
  definition below, and each property is proved for every such function.  In an HTML
  document the assignment never throws, so the \<open>catch\<close> branch of \<open>getCleanTextContent\<close>
  is never taken and \<open>textContent\<close> is total.
\<close>

type_synonym dom_text = "string \<Rightarrow> string"

definition getCleanTextContent :: "dom_text \<Rightarrow> string \<Rightarrow> string" where
  "getCleanTextContent textContent htmlString =
     (if htmlString = [] then [] else trim (textContent htmlString))"

subsection \<open>\<open>getFirstTwoLinesKey\<close>\<close>

definition lower :: "char \<Rightarrow> char" where
  "lower c = (let n = (of_char c :: nat) in if 65 \<le> n \<and> n \<le> 90 then char_of (n + 32) else c)"

text \<open>A literal pattern at the head of the input, letters compared without case (flag \<open>i\<close>).\<close>

fun match_ci :: "string \<Rightarrow> string \<Rightarrow> string option" where
  "match_ci [] s = Some s"
| "match_ci (p # ps) [] = None"
| "match_ci (p # ps) (c # cs) = (if lower c = lower p then match_ci ps cs else None)"

text \<open>\<open><br\s*\/?>\<close> at the head of the input; the result is the input after the match.\<close>

definition match_br :: "string \<Rightarrow> string option" where
  "match_br s =
     (case match_ci ''<br'' s of
        None \<Rightarrow> None
      | Some r \<Rightarrow>
          (let r1 = dropWhile is_space r;
               r2 = (case r1 of [] \<Rightarrow> r1 | c # cs \<Rightarrow> if c = CHR ''/'' then cs else r1)
           in case r2 of [] \<Rightarrow> None | c # cs \<Rightarrow> if c = CHR ''>'' then Some cs else None))"

text \<open>\<open>/<br\s*\/?>|<\/p>|<\/div>/gi\<close> at the head of the input.\<close>

definition match_break :: "string \<Rightarrow> string option" where
  "match_break s =
     (case match_br s of
        Some r \<Rightarrow> Some r
      | None \<Rightarrow> (case match_ci ''</p>'' s of Some r \<Rightarrow> Some r | None \<Rightarrow> match_ci ''</div>'' s))"

lemma match_ci_length: "match_ci p s = Some r \<Longrightarrow> length s = length p + length r"
  by (induction p s rule: match_ci.induct) (auto split: if_splits)

lemma match_break_shorter:
  assumes "match_break s = Some r"
  shows "length r < length s"
proof (cases "match_br s")
  case None
  with assms have "match_ci ''</p>'' s = Some r \<or> match_ci ''</div>'' s = Some r"
    by (auto simp: match_break_def split: option.splits)
  then show ?thesis
    by (auto dest: match_ci_length)
next
  case (Some a)
  with assms have br: "match_br s = Some r"
    by (simp add: match_break_def)
  then obtain r0 where r0: "match_ci ''<br'' s = Some r0"
    by (auto simp: match_br_def split: option.splits)
  define r1 where "r1 = dropWhile is_space r0"
  define r2 where "r2 = (case r1 of [] \<Rightarrow> r1 | c # cs \<Rightarrow> if c = CHR ''/'' then cs else r1)"
  have "length r1 \<le> length r0"
    by (simp add: r1_def length_dropWhile_le)
  moreover have "length r2 \<le> length r1"
    by (auto simp: r2_def split: list.splits)
  moreover from br r0 have "length r < length r2"
    by (auto simp: match_br_def Let_def r1_def r2_def split: list.splits if_splits)
  moreover from r0 have "length s = 3 + length r0"
    by (auto dest: match_ci_length)
  ultimately show ?thesis
    by simp
qed

text \<open>\<open>htmlString.replace(/.../gi, '||LINE_BREAK||')\<close>\<close>

function replace_breaks :: "string \<Rightarrow> string" where
  "replace_breaks [] = []"
| "replace_breaks (c # cs) =
     (case match_break (c # cs) of
        Some rest \<Rightarrow> ''||LINE_BREAK||'' @ replace_breaks rest
      | None \<Rightarrow> c # replace_breaks cs)"
  by pat_completeness auto
termination
  by (relation "measure length") (auto dest: match_break_shorter)

text \<open>\<open>textContent.split('||LINE_BREAK||')\<close>; \<open>cur\<close> is the text read since the last separator.\<close>

function split_lines :: "string \<Rightarrow> string \<Rightarrow> string list" where
  "split_lines cur [] = [cur]"
| "split_lines cur (c # cs) =
     (if take 14 (c # cs) = ''||LINE_BREAK||''
      then cur # split_lines [] (drop 14 (c # cs))
      else split_lines (cur @ [c]) cs)"
  by pat_completeness auto
termination
  by (relation "measure (\<lambda>(cur, s). length s)") auto

fun join_space :: "string list \<Rightarrow> string" where
  "join_space [] = []"
| "join_space [x] = x"
| "join_space (x # y # ys) = x @ '' '' @ join_space (y # ys)"

definition getFirstTwoLinesKey :: "dom_text \<Rightarrow> string \<Rightarrow> string" where
  "getFirstTwoLinesKey textContent htmlString =
     (if htmlString = [] then []
      else
        let withSeparators = replace_breaks htmlString;
            text = textContent withSeparators;
            lines = filter (\<lambda>line. line \<noteq> []) (map trim (split_lines [] text))
        in trim (join_space (take 2 lines)))"

section \<open>Record reconstruction (\<open>processRawData\<close>)\<close>

text \<open>
  A \<open>RowData\<close> object is an association list in the order in which its properties were
  created; \<open>AList.update\<close> is the assignment \<open>row[key] = value\<close>.  The grid comes from
  \<open>parseHtmlFile\<close>, which makes every cell a string.
\<close>

type_synonym RowData = "(string \<times> string) list"

text \<open>\<open>String(row[key] || '')\<close>\<close>

definition field :: "RowData \<Rightarrow> string \<Rightarrow> string" where
  "field row k = (case map_of row k of None \<Rightarrow> [] | Some v \<Rightarrow> v)"

datatype error = HeaderNotFound

definition requiredHeaders :: "string list" where
  "requiredHeaders = [''Step Order'', ''Procedure'', ''Expected Outcome'']"

text \<open>The header scan, from row \<open>i\<close> on: the index of the header row and its clean texts.\<close>

fun find_header :: "dom_text \<Rightarrow> string list list \<Rightarrow> nat \<Rightarrow> (nat \<times> string list) option" where
  "find_header textContent [] i = None"
| "find_header textContent (row # rows) i =
     (let potentialHeaders = map (getCleanTextContent textContent) row
      in if list_all (\<lambda>h. h \<in> set potentialHeaders) requiredHeaders
         then Some (i, potentialHeaders)
         else find_header textContent rows (Suc i))"

text \<open>\<open>rowArray[index] ?? ""\<close>\<close>

definition cell :: "string list \<Rightarrow> nat \<Rightarrow> string" where
  "cell rowArray index = (if index < length rowArray then rowArray ! index else [])"

definition make_row :: "string list \<Rightarrow> string list \<Rightarrow> RowData" where
  "make_row cleanHeaders rowArray =
     fold (\<lambda>(index, header) rowObject. AList.update header (cell rowArray index) rowObject)
          (enumerate 0 cleanHeaders) []"

text \<open>One round of the loop over \<open>cleanHeaders\<close> that appends a continuation row to its parent.\<close>

definition append_content :: "dom_text \<Rightarrow> RowData \<Rightarrow> string \<Rightarrow> RowData \<Rightarrow> RowData" where
  "append_content textContent row header parentRow =
     (case map_of row header of
        None \<Rightarrow> parentRow
      | Some contentToAppend \<Rightarrow>
          if contentToAppend \<noteq> [] \<and> getCleanTextContent textContent contentToAppend \<noteq> []
          then
            let existingContent = field parentRow header
            in AList.update header
                 (if existingContent \<noteq> [] then existingContent @ contentToAppend
                  else contentToAppend)
                 parentRow
          else parentRow)"

text \<open>
  \<open>lastParentRow\<close> is a second reference to an object already pushed onto \<open>mergedRows\<close>:
  it is kept as the index of that object, and the mutation is an update at that index.
\<close>

record merge_state =
  mergedRows :: "RowData list"
  lastParentRow :: "nat option"

definition merge_step :: "dom_text \<Rightarrow> string list \<Rightarrow> RowData \<Rightarrow> merge_state \<Rightarrow> merge_state" where
  "merge_step textContent cleanHeaders row st =
     (let stepOrderText = getCleanTextContent textContent (field row ''Step Order'');
          procedureText = getCleanTextContent textContent (field row ''Procedure'');
          isCategoryRow =
            (stepOrderText = [] \<and> trim procedureText \<noteq> [] \<and>
             getCleanTextContent textContent (field row ''Expected Outcome'') = []);
          isTestStepRow = (trim stepOrderText \<noteq> [])
      in
        if isCategoryRow then
          \<lparr>mergedRows = mergedRows st @ [row], lastParentRow = None\<rparr>
        else if isTestStepRow then
          \<lparr>mergedRows = mergedRows st @ [row], lastParentRow = Some (length (mergedRows st))\<rparr>
        else
          (case lastParentRow st of
             Some p \<Rightarrow>
               st\<lparr>mergedRows :=
                    (mergedRows st)
                      [p := fold (append_content textContent row) cleanHeaders (mergedRows st ! p)]\<rparr>
           | None \<Rightarrow> st\<lparr>mergedRows := mergedRows st @ [row]\<rparr>))"

definition processRawData :: "dom_text \<Rightarrow> string list list \<Rightarrow> error + RowData list" where
  "processRawData textContent rawData =
     (if rawData = [] then Inr []
      else
        case find_header textContent rawData 0 of
          None \<Rightarrow> Inl HeaderNotFound
        | Some (headerIndex, cleanHeaders) \<Rightarrow>
            let dataRows = drop (headerIndex + 1) rawData;
                structuredData = map (make_row cleanHeaders) dataRows
            in Inr (mergedRows
                      (fold (merge_step textContent cleanHeaders) structuredData
                            \<lparr>mergedRows = [], lastParentRow = None\<rparr>)))"

section \<open>Row matching and alignment (\<open>performLcsDiff\<close>)\<close>

datatype mode = Step | Content

text \<open>
  The expression \<open>!step && procedure && !outcome\<close> over three strings has a boolean or a
  string as its value: \<open>false\<close> when the first operand is false, the (empty) procedure
  text when that is falsy, and the boolean \<open>!outcome\<close> otherwise.
\<close>

datatype js_value = JBool bool | JString string

fun truthy :: "js_value \<Rightarrow> bool" where
  "truthy (JBool b) = b"
| "truthy (JString s) = (s \<noteq> [])"

definition isCategory :: "dom_text \<Rightarrow> RowData \<Rightarrow> js_value" where
  "isCategory textContent row =
     (if getCleanTextContent textContent (field row ''Step Order'') \<noteq> [] then JBool False
      else if getCleanTextContent textContent (field row ''Procedure'') = []
           then JString (getCleanTextContent textContent (field row ''Procedure''))
      else JBool (getCleanTextContent textContent (field row ''Expected Outcome'') = []))"

text \<open>\<open>isCategoryA !== isCategoryB\<close> is strict inequality: values of different type differ.\<close>

definition areRowsEqual :: "dom_text \<Rightarrow> mode \<Rightarrow> RowData \<Rightarrow> RowData \<Rightarrow> bool" where
  "areRowsEqual textContent mode rowA rowB =
     (let isCategoryA = isCategory textContent rowA;
          isCategoryB = isCategory textContent rowB
      in
        if truthy isCategoryA \<and> truthy isCategoryB then
          getCleanTextContent textContent (field rowA ''Procedure'') =
          getCleanTextContent textContent (field rowB ''Procedure'')
        else if isCategoryA \<noteq> isCategoryB then False
        else
          let procA = field rowA ''Procedure'';
              procB = field rowB ''Procedure'';
              stepA = trim (field rowA ''Step Order'');
              stepB = trim (field rowB ''Step Order'')
          in case mode of
               Step \<Rightarrow> stepA = stepB
             | Content \<Rightarrow>
                 let keyA = getFirstTwoLinesKey textContent procA;
                     keyB = getFirstTwoLinesKey textContent procB
                 in trim keyA \<noteq> [] \<and> keyA = keyB)"

datatype ChangeType = ADDED | DELETED | MODIFIED | UNCHANGED

record ComparisonRowPair =
  status :: ChangeType
  original :: "RowData option"
  revised :: "RowData option"
  key :: string

text \<open>Decimal digits of a number, for the template strings of the keys.\<close>

function string_of_nat :: "nat \<Rightarrow> string" where
  "string_of_nat n =
     (if n < 10 then [char_of (48 + n)]
      else string_of_nat (n div 10) @ [char_of (48 + n mod 10)])"
  by pat_completeness auto
termination
  by (relation "measure id") auto

declare string_of_nat.simps [simp del]

text \<open>
  The status of a matched pair.  In mode \<open>step\<close> the source compares
  \<open>JSON.stringify({proc, outcome})\<close> of both rows; the serialisation leaves an undefined
  property out and is injective on strings, so the two texts are equal exactly when both
  properties are.
\<close>

definition match_status :: "dom_text \<Rightarrow> mode \<Rightarrow> RowData \<Rightarrow> RowData \<Rightarrow> ChangeType" where
  "match_status textContent mode originalRow revisedRow =
     (if \<not> truthy (isCategory textContent originalRow) then
        (case mode of
           Step \<Rightarrow>
             let isContentEqual =
                   (map_of originalRow ''Procedure'' = map_of revisedRow ''Procedure'' \<and>
                    map_of originalRow ''Expected Outcome'' = map_of revisedRow ''Expected Outcome'')
             in if isContentEqual then UNCHANGED else MODIFIED
         | Content \<Rightarrow>
             let originalProc = trim (field originalRow ''Procedure'');
                 revisedProc = trim (field revisedRow ''Procedure'');
                 originalOutcome = trim (field originalRow ''Expected Outcome'');
                 revisedOutcome = trim (field revisedRow ''Expected Outcome'');
                 originalStep = trim (field originalRow ''Step Order'');
                 revisedStep = trim (field revisedRow ''Step Order'');
                 isFullyEqual =
                   (originalProc = revisedProc \<and> originalOutcome = revisedOutcome \<and>
                    originalStep = revisedStep)
             in if isFullyEqual then UNCHANGED else MODIFIED)
      else UNCHANGED)"

function backtrack ::
  "dom_text \<Rightarrow> mode \<Rightarrow> RowData list \<Rightarrow> RowData list \<Rightarrow> nat list list \<Rightarrow> nat \<Rightarrow> nat \<Rightarrow>
   ComparisonRowPair list \<Rightarrow> ComparisonRowPair list"
where
  "backtrack textContent mode originalRows revisedRows dp i j pairedRows =
     (if i > 0 \<or> j > 0 then
        if i > 0 \<and> j > 0 \<and>
           areRowsEqual textContent mode (originalRows ! (i - 1)) (revisedRows ! (j - 1))
        then
          backtrack textContent mode originalRows revisedRows dp (i - 1) (j - 1)
            (\<lparr>status = match_status textContent mode (originalRows ! (i - 1)) (revisedRows ! (j - 1)),
              original = Some (originalRows ! (i - 1)),
              revised = Some (revisedRows ! (j - 1)),
              key = ''match-'' @ string_of_nat i @ ''-'' @ string_of_nat j\<rparr> # pairedRows)
        else if j > 0 \<and> (i = 0 \<or> dp ! i ! (j - 1) \<ge> dp ! (i - 1) ! j) then
          backtrack textContent mode originalRows revisedRows dp i (j - 1)
            (\<lparr>status = ADDED, original = None, revised = Some (revisedRows ! (j - 1)),
              key = ''revised-'' @ string_of_nat j\<rparr> # pairedRows)
        else if i > 0 \<and> (j = 0 \<or> dp ! i ! (j - 1) < dp ! (i - 1) ! j) then
          backtrack textContent mode originalRows revisedRows dp (i - 1) j
            (\<lparr>status = DELETED, original = Some (originalRows ! (i - 1)), revised = None,
              key = ''original-'' @ string_of_nat i\<rparr> # pairedRows)
        else pairedRows
      else pairedRows)"
  by pat_completeness auto
termination
  by (relation "measure (\<lambda>(tc, mode, a, b, dp, i, j, acc). i + j)") auto

declare backtrack.simps [simp del]

record DiffSummary =
  added :: nat
  deleted :: nat
  modified :: nat

definition count_pair :: "ComparisonRowPair \<Rightarrow> DiffSummary \<Rightarrow> DiffSummary" where
  "count_pair p s =
     (let s1 = (if status p = ADDED then s\<lparr>added := added s + 1\<rparr> else s);
          s2 = (if status p = DELETED then s1\<lparr>deleted := deleted s1 + 1\<rparr> else s1)
      in if status p = MODIFIED then s2\<lparr>modified := modified s2 + 1\<rparr> else s2)"

text \<open>
  The output of \<open>performLcsDiff\<close>: the aligned pairs and the counts.  The list of header
  names that the source returns beside them plays no part below and is left out.
\<close>

record ComparisonOutput =
  rows :: "ComparisonRowPair list"
  diffSummary :: DiffSummary

definition performLcsDiff :: "dom_text \<Rightarrow> RowData list \<Rightarrow> RowData list \<Rightarrow> mode \<Rightarrow> ComparisonOutput" where
  "performLcsDiff textContent originalRows revisedRows mode =
     (let m = length originalRows;
          n = length revisedRows;
          dp = lcs_table (areRowsEqual textContent mode) originalRows revisedRows;
          pairedRows = backtrack textContent mode originalRows revisedRows dp m n []
      in \<lparr>rows = pairedRows,
          diffSummary = fold count_pair pairedRows \<lparr>added = 0, deleted = 0, modified = 0\<rparr>\<rparr>)"

section \<open>A browser for the examples\<close>

text \<open>
  The text content of a fragment built from text and complete tags, without character
  references: every tag is dropped.  It stands for the browser where a property is
  evaluated at a concrete input; no general property depends on it.
\<close>

fun drop_tags :: "bool \<Rightarrow> string \<Rightarrow> string" where
  "drop_tags in_tag [] = []"
| "drop_tags in_tag (c # cs) =
     (if in_tag then drop_tags (c \<noteq> CHR ''>'') cs
      else if c = CHR ''<'' then drop_tags True cs
      else c # drop_tags False cs)"

definition plain_text :: dom_text where
  "plain_text s = drop_tags False s"

section \<open>Reading an edit script\<close>

text \<open>
  The values of the segments tagged \<open>COMMON\<close> or \<open>DELETED\<close>, and of those tagged \<open>COMMON\<close>
  or \<open>ADDED\<close>, in order.
\<close>

definition common_deleted_values :: "DiffSegment list \<Rightarrow> string list" where
  "common_deleted_values diff =
     map seg_value (filter (\<lambda>d. seg_type d = Diff_COMMON \<or> seg_type d = Diff_DELETED) diff)"

definition common_added_values :: "DiffSegment list \<Rightarrow> string list" where
  "common_added_values diff =
     map seg_value (filter (\<lambda>d. seg_type d = Diff_COMMON \<or> seg_type d = Diff_ADDED) diff)"

text \<open>One segment tagged \<open>COMMON\<close> for each token of a list.\<close>

definition common_segments :: "string list \<Rightarrow> DiffSegment list" where
  "common_segments ws = map (\<lambda>w. \<lparr>seg_type = Diff_COMMON, seg_value = w\<rparr>) ws"

text \<open>
  The entries of the original side of the pairs whose status is not \<open>ADDED\<close>, and the
  entries of the revised side of the pairs whose status is not \<open>DELETED\<close>, in order.
\<close>

definition original_side :: "ComparisonRowPair list \<Rightarrow> RowData option list" where
  "original_side pairs = map original (filter (\<lambda>p. status p \<noteq> ADDED) pairs)"

definition revised_side :: "ComparisonRowPair list \<Rightarrow> RowData option list" where
  "revised_side pairs = map revised (filter (\<lambda>p. status p \<noteq> DELETED) pairs)"

text \<open>
  A category row in the words of the specification: normalised identifier empty,
  normalised procedure not empty, normalised outcome empty.
\<close>

definition is_category :: "dom_text \<Rightarrow> RowData \<Rightarrow> bool" where
  "is_category textContent row \<longleftrightarrow>
     getCleanTextContent textContent (field row ''Step Order'') = [] \<and>
     getCleanTextContent textContent (field row ''Procedure'') \<noteq> [] \<and>
     getCleanTextContent textContent (field row ''Expected Outcome'') = []"

text \<open>The three objects that the backtracking loop of \<open>performLcsDiff\<close> puts in front of the list.\<close>

definition matched_pair :: "dom_text \<Rightarrow> mode \<Rightarrow> RowData list \<Rightarrow> RowData list \<Rightarrow> nat \<Rightarrow> nat \<Rightarrow> ComparisonRowPair" where
  "matched_pair textContent mode originalRows revisedRows i j =
     \<lparr>status = match_status textContent mode (originalRows ! (i - 1)) (revisedRows ! (j - 1)),
      original = Some (originalRows ! (i - 1)),
      revised = Some (revisedRows ! (j - 1)),
      key = ''match-'' @ string_of_nat i @ ''-'' @ string_of_nat j\<rparr>"

definition added_pair :: "RowData list \<Rightarrow> nat \<Rightarrow> ComparisonRowPair" where
  "added_pair revisedRows j =
     \<lparr>status = ADDED, original = None, revised = Some (revisedRows ! (j - 1)),
      key = ''revised-'' @ string_of_nat j\<rparr>"

definition deleted_pair :: "RowData list \<Rightarrow> nat \<Rightarrow> ComparisonRowPair" where
  "deleted_pair originalRows i =
     \<lparr>status = DELETED, original = Some (originalRows ! (i - 1)), revised = None,
      key = ''original-'' @ string_of_nat i\<rparr>"

text \<open>Every pair with both sides present whose two rows are category rows is \<open>UNCHANGED\<close>.\<close>

definition category_pairs_unchanged :: "dom_text \<Rightarrow> ComparisonRowPair list \<Rightarrow> bool" where
  "category_pairs_unchanged textContent pairs =
     list_all (\<lambda>p. case (original p, revised p) of
                      (Some a, Some b) \<Rightarrow>
                        is_category textContent a \<and> is_category textContent b \<longrightarrow> status p = UNCHANGED
                    | _ \<Rightarrow> True) pairs"

text \<open>The row that \<open>make_row\<close> builds under the header \<open>Step Order, Procedure, Expected Outcome\<close>.\<close>

definition row_of :: "string \<Rightarrow> string \<Rightarrow> string \<Rightarrow> RowData" where
  "row_of stepOrder procedure outcome =
     [(''Step Order'', stepOrder), (''Procedure'', procedure), (''Expected Outcome'', outcome)]"

text \<open>A row whose normalised identifier and normalised procedure are both empty.\<close>

definition blank_row :: "dom_text \<Rightarrow> RowData \<Rightarrow> bool" where
  "blank_row textContent row \<longleftrightarrow>
     getCleanTextContent textContent (field row ''Step Order'') = [] \<and>
     getCleanTextContent textContent (field row ''Procedure'') = []"

text \<open>Some row of the grid has all three required names among its clean cell texts.\<close>

definition has_header_row :: "dom_text \<Rightarrow> string list list \<Rightarrow> bool" where
  "has_header_row textContent rawData \<longleftrightarrow>
     (\<exists>row \<in> set rawData.
        set requiredHeaders \<subseteq> set (map (getCleanTextContent textContent) row))"

section \<open>Properties of the word diff engine\<close>

lemma concat_split_regex: "concat (split_regex cur s) = cur @ s"
proof (induction cur s rule: split_regex.induct)
  case (1 cur)
  show ?case by simp
next
  case (2 cur c cs)
  show ?case
  proof (cases "match_sep (c # cs)")
    case None
    with 2 show ?thesis by simp
  next
    case (Some p)
    obtain tok rest where p: "p = (tok, rest)" by (cases p)
    have "tok @ rest = c # cs"
    proof (cases "match_tag (c # cs)")
      case None
      with Some p have "match_space (c # cs) = Some (tok, rest)"
        by (simp add: match_sep_def)
      then show ?thesis
        by (auto simp: match_space_def split: if_splits)
    next
      case (Some q)
      with \<open>match_sep (c # cs) = Some p\<close> p have "match_tag (c # cs) = Some (tok, rest)"
        by (simp add: match_sep_def)
      then have gt: "CHR ''>'' \<in> set cs"
        and tok: "tok = c # takeWhile (\<lambda>x. x \<noteq> CHR ''>'') cs @ [CHR ''>'']"
        and rest: "rest = tl (dropWhile (\<lambda>x. x \<noteq> CHR ''>'') cs)"
        by (auto simp: match_tag_def split: if_splits)
      from gt have "dropWhile (\<lambda>x. x \<noteq> CHR ''>'') cs \<noteq> []"
        by auto
      moreover have "hd (dropWhile (\<lambda>x. x \<noteq> CHR ''>'') cs) = CHR ''>''"
        using hd_dropWhile [OF \<open>dropWhile (\<lambda>x. x \<noteq> CHR ''>'') cs \<noteq> []\<close>] by simp
      ultimately have "dropWhile (\<lambda>x. x \<noteq> CHR ''>'') cs = CHR ''>'' # rest"
        using rest by (cases "dropWhile (\<lambda>x. x \<noteq> CHR ''>'') cs") auto
      then have "takeWhile (\<lambda>x. x \<noteq> CHR ''>'') cs @ CHR ''>'' # rest = cs"
        using takeWhile_dropWhile_id [of "\<lambda>x. x \<noteq> CHR ''>''" cs] by simp
      with tok show ?thesis by simp
    qed
    with 2 Some p show ?thesis by simp
  qed
qed

lemma concat_filter_nonempty: "concat (filter (\<lambda>w. w \<noteq> []) xs) = concat xs"
  by (induction xs) auto

lemma concat_words: "concat (words s) = s"
  by (simp add: words_def concat_filter_nonempty concat_split_regex)

lemma take_pred_snoc: "0 < i \<Longrightarrow> i \<le> length xs \<Longrightarrow> take (i - 1) xs @ [xs ! (i - 1)] = take i xs"
  by (cases i) (simp_all add: take_Suc_conv_app_nth)

lemma diff_backtrack_stop: "diff_backtrack ow rw dp 0 0 acc = acc"
  by (subst diff_backtrack.simps) simp

lemma diff_backtrack_common:
  assumes "0 < i" "0 < j" "ow ! (i - 1) = rw ! (j - 1)"
  shows "diff_backtrack ow rw dp i j acc =
         diff_backtrack ow rw dp (i - 1) (j - 1)
           (\<lparr>seg_type = Diff_COMMON, seg_value = ow ! (i - 1)\<rparr> # acc)"
  using assms by (subst diff_backtrack.simps) simp

lemma diff_backtrack_added:
  assumes "\<not> (0 < i \<and> 0 < j \<and> ow ! (i - 1) = rw ! (j - 1))"
    and "0 < j" "i = 0 \<or> dp ! i ! (j - 1) \<ge> dp ! (i - 1) ! j"
  shows "diff_backtrack ow rw dp i j acc =
         diff_backtrack ow rw dp i (j - 1)
           (\<lparr>seg_type = Diff_ADDED, seg_value = rw ! (j - 1)\<rparr> # acc)"
  using assms by (subst diff_backtrack.simps) auto

lemma diff_backtrack_deleted:
  assumes "\<not> (0 < i \<and> 0 < j \<and> ow ! (i - 1) = rw ! (j - 1))"
    and "\<not> (0 < j \<and> (i = 0 \<or> dp ! i ! (j - 1) \<ge> dp ! (i - 1) ! j))"
    and "0 < i"
  shows "diff_backtrack ow rw dp i j acc =
         diff_backtrack ow rw dp (i - 1) j
           (\<lparr>seg_type = Diff_DELETED, seg_value = ow ! (i - 1)\<rparr> # acc)"
  using assms by (subst diff_backtrack.simps) auto

lemma diff_backtrack_original:
  "i \<le> length ow \<Longrightarrow>
   common_deleted_values (diff_backtrack ow rw dp i j acc) = take i ow @ common_deleted_values acc"
proof (induction "i + j" arbitrary: i j acc rule: less_induct)
  case less
  let ?match = "0 < i \<and> 0 < j \<and> ow ! (i - 1) = rw ! (j - 1)"
  let ?add = "0 < j \<and> (i = 0 \<or> dp ! i ! (j - 1) \<ge> dp ! (i - 1) ! j)"
  consider (stop) "i = 0" "j = 0" | (common) ?match | (added) "\<not> ?match" ?add
    | (deleted) "\<not> ?match" "\<not> ?add" "0 < i"
    by blast
  then show ?case
  proof cases
    case stop
    then show ?thesis by (simp add: diff_backtrack_stop)
  next
    case common
    then have step: "diff_backtrack ow rw dp i j acc =
        diff_backtrack ow rw dp (i - 1) (j - 1) (\<lparr>seg_type = Diff_COMMON, seg_value = ow ! (i - 1)\<rparr> # acc)"
      by (intro diff_backtrack_common) auto
    from common less.prems have ih: "common_deleted_values (diff_backtrack ow rw dp (i - 1) (j - 1) (\<lparr>seg_type = Diff_COMMON, seg_value = ow ! (i - 1)\<rparr> # acc)) =
        take (i - 1) ow @ common_deleted_values (\<lparr>seg_type = Diff_COMMON, seg_value = ow ! (i - 1)\<rparr> # acc)"
      by (intro less.hyps) auto
    from common have new: "common_deleted_values (\<lparr>seg_type = Diff_COMMON, seg_value = ow ! (i - 1)\<rparr> # acc) = [ow ! (i - 1)] @ common_deleted_values acc"
      by (simp add: common_deleted_values_def)
    from common less.prems have e: "take (i - 1) ow @ [ow ! (i - 1)] = take i ow"
      by (intro take_pred_snoc) auto
    have "common_deleted_values (diff_backtrack ow rw dp i j acc) =
        (take (i - 1) ow @ [ow ! (i - 1)]) @ common_deleted_values acc"
      by (simp only: step ih new append_assoc)
    then show ?thesis
      by (simp only: e)
  next
    case added
    then have step: "diff_backtrack ow rw dp i j acc =
        diff_backtrack ow rw dp i (j - 1) (\<lparr>seg_type = Diff_ADDED, seg_value = rw ! (j - 1)\<rparr> # acc)"
      by (intro diff_backtrack_added) auto
    from added less.prems have "common_deleted_values (diff_backtrack ow rw dp i (j - 1) (\<lparr>seg_type = Diff_ADDED, seg_value = rw ! (j - 1)\<rparr> # acc)) =
        take i ow @ common_deleted_values (\<lparr>seg_type = Diff_ADDED, seg_value = rw ! (j - 1)\<rparr> # acc)"
      by (intro less.hyps) auto
    then show ?thesis
      by (simp add: step common_deleted_values_def)
  next
    case deleted
    then have step: "diff_backtrack ow rw dp i j acc =
        diff_backtrack ow rw dp (i - 1) j (\<lparr>seg_type = Diff_DELETED, seg_value = ow ! (i - 1)\<rparr> # acc)"
      by (intro diff_backtrack_deleted) auto
    from deleted less.prems have ih: "common_deleted_values (diff_backtrack ow rw dp (i - 1) j (\<lparr>seg_type = Diff_DELETED, seg_value = ow ! (i - 1)\<rparr> # acc)) =
        take (i - 1) ow @ common_deleted_values (\<lparr>seg_type = Diff_DELETED, seg_value = ow ! (i - 1)\<rparr> # acc)"
      by (intro less.hyps) auto
    from deleted have new: "common_deleted_values (\<lparr>seg_type = Diff_DELETED, seg_value = ow ! (i - 1)\<rparr> # acc) = [ow ! (i - 1)] @ common_deleted_values acc"
      by (simp add: common_deleted_values_def)
    from deleted less.prems have e: "take (i - 1) ow @ [ow ! (i - 1)] = take i ow"
      by (intro take_pred_snoc) auto
    have "common_deleted_values (diff_backtrack ow rw dp i j acc) =
        (take (i - 1) ow @ [ow ! (i - 1)]) @ common_deleted_values acc"
      by (simp only: step ih new append_assoc)
    then show ?thesis
      by (simp only: e)
  qed
qed

lemma diff_backtrack_revised:
  "j \<le> length rw \<Longrightarrow>
   common_added_values (diff_backtrack ow rw dp i j acc) = take j rw @ common_added_values acc"
proof (induction "i + j" arbitrary: i j acc rule: less_induct)
  case less
  let ?match = "0 < i \<and> 0 < j \<and> ow ! (i - 1) = rw ! (j - 1)"
  let ?add = "0 < j \<and> (i = 0 \<or> dp ! i ! (j - 1) \<ge> dp ! (i - 1) ! j)"
  consider (stop) "i = 0" "j = 0" | (common) ?match | (added) "\<not> ?match" ?add
    | (deleted) "\<not> ?match" "\<not> ?add" "0 < i"
    by blast
  then show ?case
  proof cases
    case stop
    then show ?thesis by (simp add: diff_backtrack_stop)
  next
    case common
    then have step: "diff_backtrack ow rw dp i j acc =
        diff_backtrack ow rw dp (i - 1) (j - 1) (\<lparr>seg_type = Diff_COMMON, seg_value = ow ! (i - 1)\<rparr> # acc)"
      by (intro diff_backtrack_common) auto
    from common less.prems have ih: "common_added_values (diff_backtrack ow rw dp (i - 1) (j - 1) (\<lparr>seg_type = Diff_COMMON, seg_value = ow ! (i - 1)\<rparr> # acc)) =
        take (j - 1) rw @ common_added_values (\<lparr>seg_type = Diff_COMMON, seg_value = ow ! (i - 1)\<rparr> # acc)"
      by (intro less.hyps) auto
    from common have new: "common_added_values (\<lparr>seg_type = Diff_COMMON, seg_value = ow ! (i - 1)\<rparr> # acc) = [rw ! (j - 1)] @ common_added_values acc"
      by (simp add: common_added_values_def)
    from common less.prems have e: "take (j - 1) rw @ [rw ! (j - 1)] = take j rw"
      by (intro take_pred_snoc) auto
    have "common_added_values (diff_backtrack ow rw dp i j acc) =
        (take (j - 1) rw @ [rw ! (j - 1)]) @ common_added_values acc"
      by (simp only: step ih new append_assoc)
    then show ?thesis
      by (simp only: e)
  next
    case added
    then have step: "diff_backtrack ow rw dp i j acc =
        diff_backtrack ow rw dp i (j - 1) (\<lparr>seg_type = Diff_ADDED, seg_value = rw ! (j - 1)\<rparr> # acc)"
      by (intro diff_backtrack_added) auto
    from added less.prems have ih: "common_added_values (diff_backtrack ow rw dp i (j - 1) (\<lparr>seg_type = Diff_ADDED, seg_value = rw ! (j - 1)\<rparr> # acc)) =
        take (j - 1) rw @ common_added_values (\<lparr>seg_type = Diff_ADDED, seg_value = rw ! (j - 1)\<rparr> # acc)"
      by (intro less.hyps) auto
    from added have new: "common_added_values (\<lparr>seg_type = Diff_ADDED, seg_value = rw ! (j - 1)\<rparr> # acc) = [rw ! (j - 1)] @ common_added_values acc"
      by (simp add: common_added_values_def)
    from added less.prems have e: "take (j - 1) rw @ [rw ! (j - 1)] = take j rw"
      by (intro take_pred_snoc) auto
    have "common_added_values (diff_backtrack ow rw dp i j acc) =
        (take (j - 1) rw @ [rw ! (j - 1)]) @ common_added_values acc"
      by (simp only: step ih new append_assoc)
    then show ?thesis
      by (simp only: e)
  next
    case deleted
    then have step: "diff_backtrack ow rw dp i j acc =
        diff_backtrack ow rw dp (i - 1) j (\<lparr>seg_type = Diff_DELETED, seg_value = ow ! (i - 1)\<rparr> # acc)"
      by (intro diff_backtrack_deleted) auto
    from deleted less.prems have "common_added_values (diff_backtrack ow rw dp (i - 1) j (\<lparr>seg_type = Diff_DELETED, seg_value = ow ! (i - 1)\<rparr> # acc)) =
        take j rw @ common_added_values (\<lparr>seg_type = Diff_DELETED, seg_value = ow ! (i - 1)\<rparr> # acc)"
      by (intro less.hyps) auto
    then show ?thesis
      by (simp add: step common_added_values_def)
  qed
qed

text \<open>
  C7.  For every pair of input strings, the values of the segments of \<open>createDiff\<close> tagged
  \<open>COMMON\<close> or \<open>DELETED\<close> are, in order, the tokens of the original string, and their
  concatenation is the original string; the values of the segments tagged \<open>COMMON\<close> or
  \<open>ADDED\<close> are the tokens of the revised string, and their concatenation is the revised
  string.
\<close>

theorem word_diff_reconstruction:
  "common_deleted_values (createDiff originalText revisedText) = words originalText \<and>
   concat (common_deleted_values (createDiff originalText revisedText)) = originalText \<and>
   common_added_values (createDiff originalText revisedText) = words revisedText \<and>
   concat (common_added_values (createDiff originalText revisedText)) = revisedText"
  by (simp add: createDiff_def Let_def diff_backtrack_original diff_backtrack_revised
      concat_words common_deleted_values_def [of "[]"] common_added_values_def [of "[]"])

theorem word_diff_reconstruction_witness:
  "common_deleted_values (createDiff ''a <b>c</b> d'' ''a <i>c</i>  e'') =
     [''a'', '' '', ''<b>'', ''c'', ''</b>'', '' '', ''d''] \<and>
   common_added_values (createDiff ''a <b>c</b> d'' ''a <i>c</i>  e'') =
     [''a'', '' '', ''<i>'', ''c'', ''</i>'', ''  '', ''e'']"
proof -
  have w1: "words ''a <b>c</b> d'' = [''a'', '' '', ''<b>'', ''c'', ''</b>'', '' '', ''d'']"
    by code_simp
  have w2: "words ''a <i>c</i>  e'' = [''a'', '' '', ''<i>'', ''c'', ''</i>'', ''  '', ''e'']"
    by code_simp
  show ?thesis
    using word_diff_reconstruction [of "''a <b>c</b> d''" "''a <i>c</i>  e''"] w1 w2 by simp
qed

lemma diff_backtrack_same:
  "i \<le> length ws \<Longrightarrow>
   diff_backtrack ws ws dp i i acc = common_segments (take i ws) @ acc"
proof (induction i arbitrary: acc)
  case 0
  show ?case by (simp add: diff_backtrack_stop common_segments_def)
next
  case (Suc i)
  have "diff_backtrack ws ws dp (Suc i) (Suc i) acc =
      diff_backtrack ws ws dp (Suc i - 1) (Suc i - 1)
        (\<lparr>seg_type = Diff_COMMON, seg_value = ws ! (Suc i - 1)\<rparr> # acc)"
    by (rule diff_backtrack_common) simp_all
  also have "\<dots> = common_segments (take i ws) @ \<lparr>seg_type = Diff_COMMON, seg_value = ws ! i\<rparr> # acc"
    using Suc by simp
  also have "\<dots> = common_segments (take (Suc i) ws) @ acc"
    using Suc.prems by (simp add: common_segments_def take_Suc_conv_app_nth)
  finally show ?case .
qed

text \<open>
  C9, as stated, fails.  For the identical fragments \<open>a b\<close> the word diff \<open>createDiff\<close>
  produces three segments tagged \<open>COMMON\<close>, one for each token, and none for the empty
  fragment: it has no short-circuit.  The component \<open>TextDiff\<close> does not call it on
  identical fragments and produces no segment; what it returns differs from the rendering
  of a list of one \<open>COMMON\<close> segment.
\<close>

theorem identical_fragments_counterexample:
  "createDiff ''a b'' ''a b'' =
     [\<lparr>seg_type = Diff_COMMON, seg_value = ''a''\<rparr>,
      \<lparr>seg_type = Diff_COMMON, seg_value = '' ''\<rparr>,
      \<lparr>seg_type = Diff_COMMON, seg_value = ''b''\<rparr>] \<and>
   createDiff ''a b'' ''a b'' \<noteq> [\<lparr>seg_type = Diff_COMMON, seg_value = ''a b''\<rparr>] \<and>
   createDiff [] [] = [] \<and>
   TextDiff ''a b'' ''a b'' = Span None ''a b'' \<and>
   TextDiff ''a b'' ''a b'' \<noteq>
     SpanOf (map (\<lambda>(index, part). render_part index part)
               (enumerate 0 [\<lparr>seg_type = Diff_COMMON, seg_value = ''a b''\<rparr>]))"
  by code_simp

text \<open>
  C9, amended.  When the two fragments are the same string, \<open>TextDiff\<close> returns the
  original fragment in one plain \<open>span\<close>, without a word diff.  The word diff itself, on
  the same string twice, produces one segment tagged \<open>COMMON\<close> for each token of the
  string, in order, and the values of the segments concatenate to the string.
\<close>

theorem identical_fragments_short_circuit:
  "TextDiff originalText originalText = Span None originalText \<and>
   createDiff originalText originalText = common_segments (words originalText) \<and>
   concat (map seg_value (createDiff originalText originalText)) = originalText"
proof -
  have c: "createDiff originalText originalText = common_segments (words originalText)"
    using diff_backtrack_same [of "length (words originalText)" "words originalText"]
    by (simp add: createDiff_def Let_def)
  have "map seg_value (common_segments (words originalText)) = words originalText"
    by (simp add: common_segments_def comp_def)
  with c show ?thesis
    by (simp add: TextDiff_def concat_words)
qed

theorem identical_fragments_short_circuit_witness:
  "TextDiff ''<b>Open</b> the app'' ''<b>Open</b> the app'' = Span None ''<b>Open</b> the app'' \<and>
   createDiff ''<b>Open</b> the app'' ''<b>Open</b> the app'' =
     common_segments [''<b>'', ''Open'', ''</b>'', '' '', ''the'', '' '', ''app'']"
proof -
  have w: "words ''<b>Open</b> the app'' = [''<b>'', ''Open'', ''</b>'', '' '', ''the'', '' '', ''app'']"
    by code_simp
  from identical_fragments_short_circuit [of "''<b>Open</b> the app''"] w
  show ?thesis by simp
qed

section \<open>Properties of the aligner\<close>

lemma truthy_isCategory: "truthy (isCategory tc row) \<longleftrightarrow> is_category tc row"
  by (simp add: isCategory_def is_category_def)

lemma match_status_cases: "match_status tc mode a b = UNCHANGED \<or> match_status tc mode a b = MODIFIED"
  by (simp add: match_status_def Let_def split: mode.splits)

lemma backtrack_stop: "backtrack tc mode A B dp 0 0 acc = acc"
  by (subst backtrack.simps) simp

lemma backtrack_matched:
  assumes "0 < i" "0 < j" "areRowsEqual tc mode (A ! (i - 1)) (B ! (j - 1))"
  shows "backtrack tc mode A B dp i j acc =
         backtrack tc mode A B dp (i - 1) (j - 1) (matched_pair tc mode A B i j # acc)"
  using assms by (subst backtrack.simps) (simp add: matched_pair_def)

lemma backtrack_added:
  assumes "\<not> (0 < i \<and> 0 < j \<and> areRowsEqual tc mode (A ! (i - 1)) (B ! (j - 1)))"
    and "0 < j" "i = 0 \<or> dp ! i ! (j - 1) \<ge> dp ! (i - 1) ! j"
  shows "backtrack tc mode A B dp i j acc =
         backtrack tc mode A B dp i (j - 1) (added_pair B j # acc)"
  using assms by (subst backtrack.simps) (auto simp: added_pair_def)

lemma backtrack_deleted:
  assumes "\<not> (0 < i \<and> 0 < j \<and> areRowsEqual tc mode (A ! (i - 1)) (B ! (j - 1)))"
    and "\<not> (0 < j \<and> (i = 0 \<or> dp ! i ! (j - 1) \<ge> dp ! (i - 1) ! j))"
    and "0 < i"
  shows "backtrack tc mode A B dp i j acc =
         backtrack tc mode A B dp (i - 1) j (deleted_pair A i # acc)"
  using assms by (subst backtrack.simps) (auto simp: deleted_pair_def)

text \<open>The loop only ever prepends: what it returns ends with the list it started from.\<close>

lemma backtrack_induct [consumes 0, case_names stop matched added deleted]:
  assumes stop: "\<And>acc. P 0 0 acc acc"
    and matched: "\<And>i j acc res. 0 < i \<Longrightarrow> 0 < j \<Longrightarrow> areRowsEqual tc mode (A ! (i - 1)) (B ! (j - 1)) \<Longrightarrow>
        P (i - 1) (j - 1) (matched_pair tc mode A B i j # acc) res \<Longrightarrow> P i j acc res"
    and added: "\<And>i j acc res. 0 < j \<Longrightarrow>
        \<not> (0 < i \<and> areRowsEqual tc mode (A ! (i - 1)) (B ! (j - 1))) \<Longrightarrow>
        i = 0 \<or> dp ! i ! (j - 1) \<ge> dp ! (i - 1) ! j \<Longrightarrow>
        P i (j - 1) (added_pair B j # acc) res \<Longrightarrow> P i j acc res"
    and deleted: "\<And>i j acc res. 0 < i \<Longrightarrow>
        \<not> (0 < j \<and> areRowsEqual tc mode (A ! (i - 1)) (B ! (j - 1))) \<Longrightarrow>
        j = 0 \<or> dp ! i ! (j - 1) < dp ! (i - 1) ! j \<Longrightarrow>
        P (i - 1) j (deleted_pair A i # acc) res \<Longrightarrow> P i j acc res"
  shows "P i j acc (backtrack tc mode A B dp i j acc)"
proof (induction "i + j" arbitrary: i j acc rule: less_induct)
  case less
  let ?match = "0 < i \<and> 0 < j \<and> areRowsEqual tc mode (A ! (i - 1)) (B ! (j - 1))"
  let ?add = "0 < j \<and> (i = 0 \<or> dp ! i ! (j - 1) \<ge> dp ! (i - 1) ! j)"
  consider (s) "i = 0" "j = 0" | (m) ?match | (a) "\<not> ?match" ?add
    | (d) "\<not> ?match" "\<not> ?add" "0 < i"
    by blast
  then show ?case
  proof cases
    case s
    then show ?thesis by (simp add: backtrack_stop stop)
  next
    case m
    then have step: "backtrack tc mode A B dp i j acc =
        backtrack tc mode A B dp (i - 1) (j - 1) (matched_pair tc mode A B i j # acc)"
      by (intro backtrack_matched) auto
    from m have ih: "P (i - 1) (j - 1) (matched_pair tc mode A B i j # acc)
        (backtrack tc mode A B dp (i - 1) (j - 1) (matched_pair tc mode A B i j # acc))"
      by (intro less.hyps) auto
    show ?thesis
      unfolding step by (rule matched) (use m ih in auto)
  next
    case a
    then have step: "backtrack tc mode A B dp i j acc =
        backtrack tc mode A B dp i (j - 1) (added_pair B j # acc)"
      by (intro backtrack_added) auto
    from a have ih: "P i (j - 1) (added_pair B j # acc)
        (backtrack tc mode A B dp i (j - 1) (added_pair B j # acc))"
      by (intro less.hyps) auto
    show ?thesis
      unfolding step by (rule added) (use a ih in auto)
  next
    case d
    then have step: "backtrack tc mode A B dp i j acc =
        backtrack tc mode A B dp (i - 1) j (deleted_pair A i # acc)"
      by (intro backtrack_deleted) auto
    from d have ih: "P (i - 1) j (deleted_pair A i # acc)
        (backtrack tc mode A B dp (i - 1) j (deleted_pair A i # acc))"
      by (intro less.hyps) auto
    show ?thesis
      unfolding step by (rule deleted) (use d ih in auto)
  qed
qed

lemma map_Some_take_pred:
  assumes "0 < i" "i \<le> length xs"
  shows "map Some (take (i - 1) xs) @ Some (xs ! (i - 1)) # ys = map Some (take i xs) @ ys"
proof -
  have "map Some (take (i - 1) xs @ [xs ! (i - 1)]) = map Some (take i xs)"
    by (simp only: take_pred_snoc [OF assms])
  then have "map Some (take (i - 1) xs) @ [Some (xs ! (i - 1))] = map Some (take i xs)"
    by simp
  then have "(map Some (take (i - 1) xs) @ [Some (xs ! (i - 1))]) @ ys = map Some (take i xs) @ ys"
    by (simp only:)
  then show ?thesis
    by simp
qed

lemma original_side_Cons:
  "original_side (matched_pair tc mode A B i j # acc) = Some (A ! (i - 1)) # original_side acc"
  "original_side (added_pair B j # acc) = original_side acc"
  "original_side (deleted_pair A i # acc) = Some (A ! (i - 1)) # original_side acc"
  using match_status_cases [of tc mode "A ! (i - 1)" "B ! (j - 1)"]
  by (auto simp: original_side_def matched_pair_def added_pair_def deleted_pair_def)

lemma revised_side_Cons:
  "revised_side (matched_pair tc mode A B i j # acc) = Some (B ! (j - 1)) # revised_side acc"
  "revised_side (added_pair B j # acc) = Some (B ! (j - 1)) # revised_side acc"
  "revised_side (deleted_pair A i # acc) = revised_side acc"
  using match_status_cases [of tc mode "A ! (i - 1)" "B ! (j - 1)"]
  by (auto simp: revised_side_def matched_pair_def added_pair_def deleted_pair_def)


lemma backtrack_original_side:
  "i \<le> length A \<longrightarrow>
   original_side (backtrack tc mode A B dp i j acc) = map Some (take i A) @ original_side acc"
proof (rule backtrack_induct
    [where P = "\<lambda>i j acc res. i \<le> length A \<longrightarrow> original_side res = map Some (take i A) @ original_side acc"],
    goal_cases)
  case (1 acc)
  show ?case by simp
next
  case (2 i j acc res)
  show ?case
  proof
    assume le: "i \<le> length A"
    with 2 have "original_side res = map Some (take (i - 1) A) @ original_side (matched_pair tc mode A B i j # acc)"
      by simp
    also have "\<dots> = map Some (take i A) @ original_side acc"
      using 2(1,2) le by (simp only: original_side_Cons map_Some_take_pred)
    finally show "original_side res = map Some (take i A) @ original_side acc" .
  qed
next
  case (3 i j acc res)
  then show ?case by (simp add: original_side_Cons)
next
  case (4 i j acc res)
  show ?case
  proof
    assume le: "i \<le> length A"
    with 4 have "original_side res = map Some (take (i - 1) A) @ original_side (deleted_pair A i # acc)"
      by simp
    also have "\<dots> = map Some (take i A) @ original_side acc"
      using 4(1) le by (simp only: original_side_Cons map_Some_take_pred)
    finally show "original_side res = map Some (take i A) @ original_side acc" .
  qed
qed

lemma backtrack_revised_side:
  "j \<le> length B \<longrightarrow>
   revised_side (backtrack tc mode A B dp i j acc) = map Some (take j B) @ revised_side acc"
proof (rule backtrack_induct
    [where P = "\<lambda>i j acc res. j \<le> length B \<longrightarrow> revised_side res = map Some (take j B) @ revised_side acc"],
    goal_cases)
  case (1 acc)
  show ?case by simp
next
  case (2 i j acc res)
  show ?case
  proof
    assume le: "j \<le> length B"
    with 2 have "revised_side res = map Some (take (j - 1) B) @ revised_side (matched_pair tc mode A B i j # acc)"
      by simp
    also have "\<dots> = map Some (take j B) @ revised_side acc"
      using 2(1,2) le by (simp only: revised_side_Cons map_Some_take_pred)
    finally show "revised_side res = map Some (take j B) @ revised_side acc" .
  qed
next
  case (3 i j acc res)
  show ?case
  proof
    assume le: "j \<le> length B"
    with 3 have "revised_side res = map Some (take (j - 1) B) @ revised_side (added_pair B j # acc)"
      by simp
    also have "\<dots> = map Some (take j B) @ revised_side acc"
      using 3(1) le by (simp only: revised_side_Cons map_Some_take_pred)
    finally show "revised_side res = map Some (take j B) @ revised_side acc" .
  qed
next
  case (4 i j acc res)
  then show ?case by (simp add: revised_side_Cons)
qed

text \<open>
  C1.  For all record sequences and either mode, the pairs returned by \<open>performLcsDiff\<close>,
  read in order, give back the original sequence on their original side when the pairs
  with status \<open>ADDED\<close> are skipped, and the revised sequence on their revised side when
  the pairs with status \<open>DELETED\<close> are skipped.
\<close>

theorem edit_script_validity:
  "original_side (rows (performLcsDiff textContent originalRows revisedRows mode)) = map Some originalRows \<and>
   revised_side (rows (performLcsDiff textContent originalRows revisedRows mode)) = map Some revisedRows"
  using backtrack_original_side [of "length originalRows" originalRows textContent mode revisedRows]
        backtrack_revised_side [of "length revisedRows" revisedRows textContent mode originalRows]
  by (simp add: performLcsDiff_def Let_def original_side_def [of "[]"] revised_side_def [of "[]"])

theorem edit_script_validity_witness:
  "original_side (rows (performLcsDiff plain_text
      [row_of ''1'' ''Open'' ''ok'', row_of ''2'' ''Close'' ''ok'']
      [row_of ''2'' ''Close'' ''ok'', row_of ''3'' ''Quit'' ''ok''] Step)) =
     map Some [row_of ''1'' ''Open'' ''ok'', row_of ''2'' ''Close'' ''ok''] \<and>
   revised_side (rows (performLcsDiff plain_text
      [row_of ''1'' ''Open'' ''ok'', row_of ''2'' ''Close'' ''ok'']
      [row_of ''2'' ''Close'' ''ok'', row_of ''3'' ''Quit'' ''ok''] Step)) =
     map Some [row_of ''2'' ''Close'' ''ok'', row_of ''3'' ''Quit'' ''ok''] \<and>
   rows (performLcsDiff plain_text
      [row_of ''1'' ''Open'' ''ok'', row_of ''2'' ''Close'' ''ok'']
      [row_of ''2'' ''Close'' ''ok'', row_of ''3'' ''Quit'' ''ok''] Step) =
     [\<lparr>status = DELETED, original = Some (row_of ''1'' ''Open'' ''ok''), revised = None,
        key = ''original-1''\<rparr>,
      \<lparr>status = UNCHANGED, original = Some (row_of ''2'' ''Close'' ''ok''),
        revised = Some (row_of ''2'' ''Close'' ''ok''), key = ''match-2-1''\<rparr>,
      \<lparr>status = ADDED, original = None, revised = Some (row_of ''3'' ''Quit'' ''ok''),
        key = ''revised-2''\<rparr>]"
proof -
  have "rows (performLcsDiff plain_text
      [row_of ''1'' ''Open'' ''ok'', row_of ''2'' ''Close'' ''ok'']
      [row_of ''2'' ''Close'' ''ok'', row_of ''3'' ''Quit'' ''ok''] Step) =
     [\<lparr>status = DELETED, original = Some (row_of ''1'' ''Open'' ''ok''), revised = None,
        key = ''original-1''\<rparr>,
      \<lparr>status = UNCHANGED, original = Some (row_of ''2'' ''Close'' ''ok''),
        revised = Some (row_of ''2'' ''Close'' ''ok''), key = ''match-2-1''\<rparr>,
      \<lparr>status = ADDED, original = None, revised = Some (row_of ''3'' ''Quit'' ''ok''),
        key = ''revised-2''\<rparr>]"
    by code_simp
  with edit_script_validity [of plain_text
      "[row_of ''1'' ''Open'' ''ok'', row_of ''2'' ''Close'' ''ok'']"
      "[row_of ''2'' ''Close'' ''ok'', row_of ''3'' ''Quit'' ''ok'']" Step]
  show ?thesis by blast
qed

lemma backtrack_category:
  "category_pairs_unchanged tc acc \<longrightarrow> category_pairs_unchanged tc (backtrack tc mode A B dp i j acc)"
proof (rule backtrack_induct
    [where P = "\<lambda>i j acc res. category_pairs_unchanged tc acc \<longrightarrow> category_pairs_unchanged tc res"],
    goal_cases)
  case (1 acc)
  show ?case by simp
next
  case (2 i j acc res)
  have "is_category tc (A ! (i - 1)) \<Longrightarrow> match_status tc mode (A ! (i - 1)) (B ! (j - 1)) = UNCHANGED"
    by (simp add: match_status_def truthy_isCategory)
  with 2 show ?case
    by (auto simp: category_pairs_unchanged_def matched_pair_def)
next
  case (3 i j acc res)
  then show ?case by (simp add: category_pairs_unchanged_def added_pair_def)
next
  case (4 i j acc res)
  then show ?case by (simp add: category_pairs_unchanged_def deleted_pair_def)
qed

text \<open>
  C8.  In the pairs returned by \<open>performLcsDiff\<close>, under either mode, every pair that has
  both sides and whose two rows are category rows has status \<open>UNCHANGED\<close>, never
  \<open>MODIFIED\<close>.
\<close>

theorem matched_categories_unchanged:
  assumes "p \<in> set (rows (performLcsDiff textContent originalRows revisedRows mode))"
    and "original p = Some a" and "revised p = Some b"
    and "is_category textContent a" and "is_category textContent b"
  shows "status p = UNCHANGED \<and> status p \<noteq> MODIFIED"
proof -
  have "category_pairs_unchanged textContent (rows (performLcsDiff textContent originalRows revisedRows mode))"
    using backtrack_category [of textContent "[]" mode originalRows revisedRows]
    by (simp add: performLcsDiff_def Let_def category_pairs_unchanged_def [of _ "[]"])
  with assms show ?thesis
    by (auto simp: category_pairs_unchanged_def list_all_iff)
qed

theorem matched_categories_unchanged_witness:
  "\<lparr>status = UNCHANGED, original = Some (row_of [] ''Section'' []),
     revised = Some (row_of [] ''<b>Section</b>'' []), key = ''match-1-1''\<rparr>
     \<in> set (rows (performLcsDiff plain_text
                [row_of [] ''Section'' []] [row_of [] ''<b>Section</b>'' []] Content)) \<and>
   is_category plain_text (row_of [] ''Section'' []) \<and>
   is_category plain_text (row_of [] ''<b>Section</b>'' []) \<and>
   status \<lparr>status = UNCHANGED, original = Some (row_of [] ''Section'' []),
     revised = Some (row_of [] ''<b>Section</b>'' []), key = ''match-1-1''\<rparr> \<noteq> MODIFIED"
proof -
  let ?p = "\<lparr>status = UNCHANGED, original = Some (row_of [] ''Section'' []),
     revised = Some (row_of [] ''<b>Section</b>'' []), key = ''match-1-1''\<rparr>"
  have "rows (performLcsDiff plain_text
          [row_of [] ''Section'' []] [row_of [] ''<b>Section</b>'' []] Content) = [?p]"
    by code_simp
  then have mem: "?p \<in> set (rows (performLcsDiff plain_text
          [row_of [] ''Section'' []] [row_of [] ''<b>Section</b>'' []] Content))"
    by simp
  have a: "is_category plain_text (row_of [] ''Section'' [])"
    by code_simp
  have b: "is_category plain_text (row_of [] ''<b>Section</b>'' [])"
    by code_simp
  have "status ?p = UNCHANGED \<and> status ?p \<noteq> MODIFIED"
    by (rule matched_categories_unchanged [OF mem _ _ a b]) simp_all
  with mem a b show ?thesis by blast
qed

lemma backtrack_append_acc:
  "\<forall>acc'. backtrack tc mode A B dp i j (acc @ acc') = backtrack tc mode A B dp i j acc @ acc'"
proof (rule backtrack_induct
    [where P = "\<lambda>i j acc res. \<forall>acc'. backtrack tc mode A B dp i j (acc @ acc') = res @ acc'"],
    goal_cases)
  case (1 acc)
  show ?case by (simp add: backtrack_stop)
next
  case (2 i j acc res)
  then show ?case by (simp add: backtrack_matched)
next
  case (3 i j acc res)
  show ?case
  proof
    fix acc'
    from 3 have "backtrack tc mode A B dp i j (acc @ acc') =
        backtrack tc mode A B dp i (j - 1) (added_pair B j # acc @ acc')"
      by (intro backtrack_added) auto
    with 3 show "backtrack tc mode A B dp i j (acc @ acc') = res @ acc'"
      by simp
  qed
next
  case (4 i j acc res)
  show ?case
  proof
    fix acc'
    from 4 have "backtrack tc mode A B dp i j (acc @ acc') =
        backtrack tc mode A B dp (i - 1) j (deleted_pair A i # acc @ acc')"
      by (intro backtrack_deleted) auto
    with 4 show "backtrack tc mode A B dp i j (acc @ acc') = res @ acc'"
      by simp
  qed
qed
lemma backtrack_append:
  "backtrack tc mode A B dp i j acc = backtrack tc mode A B dp i j [] @ acc"
proof -
  have "backtrack tc mode A B dp i j ([] @ acc) = backtrack tc mode A B dp i j [] @ acc"
    using backtrack_append_acc [of tc mode A B dp i j "[]"] by blast
  then show ?thesis
    unfolding append_Nil .
qed

lemma diff_backtrack_append_acc:
  "diff_backtrack ow rw dp i j (acc @ acc') = diff_backtrack ow rw dp i j acc @ acc'"
proof (induction "i + j" arbitrary: i j acc rule: less_induct)
  case less
  let ?match = "0 < i \<and> 0 < j \<and> ow ! (i - 1) = rw ! (j - 1)"
  let ?add = "0 < j \<and> (i = 0 \<or> dp ! i ! (j - 1) \<ge> dp ! (i - 1) ! j)"
  consider (stop) "i = 0" "j = 0" | (common) ?match | (added) "\<not> ?match" ?add
    | (deleted) "\<not> ?match" "\<not> ?add" "0 < i"
    by blast
  then show ?case
  proof cases
    case stop
    then show ?thesis by (simp add: diff_backtrack_stop)
  next
    case common
    let ?s = "\<lparr>seg_type = Diff_COMMON, seg_value = ow ! (i - 1)\<rparr>"
    from common have step: "\<And>acc. diff_backtrack ow rw dp i j acc =
        diff_backtrack ow rw dp (i - 1) (j - 1) (?s # acc)"
      by (intro diff_backtrack_common) auto
    from common have "diff_backtrack ow rw dp (i - 1) (j - 1) ((?s # acc) @ acc') =
        diff_backtrack ow rw dp (i - 1) (j - 1) (?s # acc) @ acc'"
      by (intro less.hyps) auto
    then show ?thesis
      by (simp add: step)
  next
    case added
    let ?s = "\<lparr>seg_type = Diff_ADDED, seg_value = rw ! (j - 1)\<rparr>"
    from added have step: "\<And>acc. diff_backtrack ow rw dp i j acc =
        diff_backtrack ow rw dp i (j - 1) (?s # acc)"
      by (intro diff_backtrack_added) auto
    from added have "diff_backtrack ow rw dp i (j - 1) ((?s # acc) @ acc') =
        diff_backtrack ow rw dp i (j - 1) (?s # acc) @ acc'"
      by (intro less.hyps) auto
    then show ?thesis
      by (simp add: step)
  next
    case deleted
    let ?s = "\<lparr>seg_type = Diff_DELETED, seg_value = ow ! (i - 1)\<rparr>"
    from deleted have step: "\<And>acc. diff_backtrack ow rw dp i j acc =
        diff_backtrack ow rw dp (i - 1) j (?s # acc)"
      by (intro diff_backtrack_deleted) auto
    from deleted have "diff_backtrack ow rw dp (i - 1) j ((?s # acc) @ acc') =
        diff_backtrack ow rw dp (i - 1) j (?s # acc) @ acc'"
      by (intro less.hyps) auto
    then show ?thesis
      by (simp add: step)
  qed
qed
lemma diff_backtrack_append:
  "diff_backtrack ow rw dp i j acc = diff_backtrack ow rw dp i j [] @ acc"
  using diff_backtrack_append_acc [of ow rw dp i j "[]" acc] unfolding append_Nil .

text \<open>
  C5.  In the backtracking loop, when both current elements exist, they are not equal
  under the oracle, and the two neighbouring cells of the table hold the same count, the
  loop emits the revised-side element as \<open>ADDED\<close> and moves along the revised axis; it
  does not emit the original-side element as \<open>DELETED\<close>.  The loop of \<open>createDiff\<close> does
  the same with its tokens.
\<close>

theorem tie_break_prefers_added:
  assumes "0 < i" and "0 < j"
  shows "(\<not> areRowsEqual textContent mode (originalRows ! (i - 1)) (revisedRows ! (j - 1)) \<and>
          dp ! i ! (j - 1) = dp ! (i - 1) ! j \<longrightarrow>
            backtrack textContent mode originalRows revisedRows dp i j pairedRows =
              backtrack textContent mode originalRows revisedRows dp i (j - 1)
                (added_pair revisedRows j # pairedRows) \<and>
            backtrack textContent mode originalRows revisedRows dp i j pairedRows =
              backtrack textContent mode originalRows revisedRows dp i (j - 1) [] @
                added_pair revisedRows j # pairedRows) \<and>
         (originalWords ! (i - 1) \<noteq> revisedWords ! (j - 1) \<and>
          dp' ! i ! (j - 1) = dp' ! (i - 1) ! j \<longrightarrow>
            diff_backtrack originalWords revisedWords dp' i j diff =
              diff_backtrack originalWords revisedWords dp' i (j - 1)
                (\<lparr>seg_type = Diff_ADDED, seg_value = revisedWords ! (j - 1)\<rparr> # diff) \<and>
            diff_backtrack originalWords revisedWords dp' i j diff =
              diff_backtrack originalWords revisedWords dp' i (j - 1) [] @
                \<lparr>seg_type = Diff_ADDED, seg_value = revisedWords ! (j - 1)\<rparr> # diff)"
proof (intro conjI impI)
  assume h: "\<not> areRowsEqual textContent mode (originalRows ! (i - 1)) (revisedRows ! (j - 1)) \<and>
          dp ! i ! (j - 1) = dp ! (i - 1) ! j"
  with assms show step: "backtrack textContent mode originalRows revisedRows dp i j pairedRows =
      backtrack textContent mode originalRows revisedRows dp i (j - 1)
        (added_pair revisedRows j # pairedRows)"
    by (intro backtrack_added) auto
  show "backtrack textContent mode originalRows revisedRows dp i j pairedRows =
      backtrack textContent mode originalRows revisedRows dp i (j - 1) [] @
        added_pair revisedRows j # pairedRows"
    unfolding step by (rule backtrack_append)
next
  assume h: "originalWords ! (i - 1) \<noteq> revisedWords ! (j - 1) \<and>
          dp' ! i ! (j - 1) = dp' ! (i - 1) ! j"
  with assms show step: "diff_backtrack originalWords revisedWords dp' i j diff =
      diff_backtrack originalWords revisedWords dp' i (j - 1)
        (\<lparr>seg_type = Diff_ADDED, seg_value = revisedWords ! (j - 1)\<rparr> # diff)"
    by (intro diff_backtrack_added) auto
  show "diff_backtrack originalWords revisedWords dp' i j diff =
      diff_backtrack originalWords revisedWords dp' i (j - 1) [] @
        \<lparr>seg_type = Diff_ADDED, seg_value = revisedWords ! (j - 1)\<rparr> # diff"
    unfolding step by (rule diff_backtrack_append)
qed

theorem tie_break_prefers_added_witness:
  "\<not> areRowsEqual plain_text Step (row_of ''1'' ''P'' ''O'') (row_of ''2'' ''P'' ''O'') \<and>
   lcs_table (areRowsEqual plain_text Step) [row_of ''1'' ''P'' ''O''] [row_of ''2'' ''P'' ''O''] =
     [[0, 0], [0, 0]] \<and>
   backtrack plain_text Step [row_of ''1'' ''P'' ''O''] [row_of ''2'' ''P'' ''O'']
       [[0, 0], [0, 0]] 1 1 [] =
     [deleted_pair [row_of ''1'' ''P'' ''O''] 1, added_pair [row_of ''2'' ''P'' ''O''] 1] \<and>
   diff_backtrack [''a''] [''b''] [[0, 0], [0, 0]] 1 1 [] =
     [\<lparr>seg_type = Diff_DELETED, seg_value = ''a''\<rparr>, \<lparr>seg_type = Diff_ADDED, seg_value = ''b''\<rparr>]"
proof -
  let ?A = "[row_of ''1'' ''P'' ''O'']" and ?B = "[row_of ''2'' ''P'' ''O'']"
  let ?dp = "[[0, 0], [0, 0 :: nat]]"
  have ne: "\<not> areRowsEqual plain_text Step (row_of ''1'' ''P'' ''O'') (row_of ''2'' ''P'' ''O'')"
    by code_simp
  have tab: "lcs_table (areRowsEqual plain_text Step) ?A ?B = ?dp"
    by code_simp
  have r1: "backtrack plain_text Step ?A ?B ?dp 1 0 [] = [deleted_pair ?A 1]"
    by code_simp
  have r2: "diff_backtrack [''a''] [''b''] ?dp 1 0 [] = [\<lparr>seg_type = Diff_DELETED, seg_value = ''a''\<rparr>]"
    by code_simp
  have pos: "0 < (1::nat)"
    by simp
  have ne': "\<not> areRowsEqual plain_text Step (?A ! (1 - 1)) (?B ! (1 - 1))"
    using ne by simp
  have tie: "?dp ! 1 ! (1 - 1) = ?dp ! (1 - 1) ! 1"
    by simp
  have wne: "[''a''] ! (1 - 1) \<noteq> [''b''] ! (1 - 1)"
    by simp
  note T = tie_break_prefers_added [OF pos pos, where textContent = plain_text
        and mode = Step and originalRows = ?A and revisedRows = ?B and dp = ?dp
        and pairedRows = "[]" and originalWords = "[''a'']" and revisedWords = "[''b'']"
        and dp' = ?dp and diff = "[]"]
  from T ne' tie have "backtrack plain_text Step ?A ?B ?dp 1 1 [] =
      backtrack plain_text Step ?A ?B ?dp 1 (1 - 1) [] @ [added_pair ?B 1]"
    by blast
  then have rows: "backtrack plain_text Step ?A ?B ?dp 1 1 [] = [deleted_pair ?A 1, added_pair ?B 1]"
    using r1 by simp
  from T wne tie have "diff_backtrack [''a''] [''b''] ?dp 1 1 [] =
      diff_backtrack [''a''] [''b''] ?dp 1 (1 - 1) [] @
        [\<lparr>seg_type = Diff_ADDED, seg_value = [''b''] ! (1 - 1)\<rparr>]"
    by blast
  then have segs: "diff_backtrack [''a''] [''b''] ?dp 1 1 [] =
      [\<lparr>seg_type = Diff_DELETED, seg_value = ''a''\<rparr>, \<lparr>seg_type = Diff_ADDED, seg_value = ''b''\<rparr>]"
    using r2 by simp
  from ne tab rows segs show ?thesis by blast
qed

section \<open>Properties of record reconstruction\<close>

lemma find_header_None:
  "find_header tc rawData i = None \<longleftrightarrow> \<not> has_header_row tc rawData"
  by (induction rawData arbitrary: i)
     (auto simp: has_header_row_def Let_def list_all_iff)

text \<open>
  C6, as stated, fails at the empty grid: no row of it qualifies as a header, and
  \<open>processRawData\<close> returns the empty record sequence, through its first guard, and no
  error.
\<close>

theorem empty_grid_counterexample:
  "\<not> has_header_row plain_text [] \<and> processRawData plain_text [] = Inr [] \<and>
   processRawData plain_text [] \<noteq> Inl HeaderNotFound"
  by (simp add: has_header_row_def processRawData_def)

text \<open>
  C6, amended.  For every grid that is not empty, \<open>processRawData\<close> fails with the
  header-not-found error exactly when no row's clean cell texts contain the three required
  names; for the empty grid it returns the empty record sequence.
\<close>

theorem header_not_found:
  "(rawData \<noteq> [] \<longrightarrow>
      (processRawData textContent rawData = Inl HeaderNotFound \<longleftrightarrow>
       \<not> has_header_row textContent rawData)) \<and>
   processRawData textContent [] = Inr []"
proof -
  have "processRawData textContent rawData = Inl HeaderNotFound \<longleftrightarrow>
        find_header textContent rawData 0 = None" if "rawData \<noteq> []"
    using that by (auto simp: processRawData_def Let_def split: option.splits)
  then show ?thesis
    by (simp add: find_header_None processRawData_def)
qed

theorem header_not_found_witness:
  "[[''Step'', ''Procedure''], [''1'', ''Open'']] \<noteq> [] \<and>
   \<not> has_header_row plain_text [[''Step'', ''Procedure''], [''1'', ''Open'']] \<and>
   processRawData plain_text [[''Step'', ''Procedure''], [''1'', ''Open'']] = Inl HeaderNotFound"
proof -
  have ne: "[[''Step'', ''Procedure''], [''1'', ''Open'']] \<noteq> ([] :: string list list)"
    by simp
  have no: "\<not> has_header_row plain_text [[''Step'', ''Procedure''], [''1'', ''Open'']]"
    by code_simp
  from header_not_found [of "[[''Step'', ''Procedure''], [''1'', ''Open'']]" plain_text] ne no
  show ?thesis by blast
qed

lemma trim_trim: "trim (trim s) = trim s"
proof -
  define u where "u = dropWhile is_space (rev (dropWhile is_space s))"
  have "dropWhile is_space (rev u) = rev u"
  proof (cases "u = []")
    case True
    then show ?thesis by simp
  next
    case False
    then have "last u = last (rev (dropWhile is_space s))"
      unfolding u_def
      by (metis append_Nil2 last_appendR takeWhile_dropWhile_id)
    moreover have "u = []" if "dropWhile is_space s = []"
      unfolding u_def that by simp
    with False have ne: "dropWhile is_space s \<noteq> []"
      by blast
    moreover note ne
    ultimately have "last u = hd (dropWhile is_space s)"
      by (simp add: last_rev)
    with ne have "\<not> is_space (last u)"
      using hd_dropWhile [of is_space s] by simp
    with False have "\<not> is_space (hd (rev u))"
      by (simp add: hd_rev)
    with False show ?thesis
      by (cases "rev u") auto
  qed
  moreover have "dropWhile is_space u = u"
    by (simp add: u_def)
  ultimately show ?thesis
    by (simp add: trim_def u_def [symmetric])
qed

lemma getClean_nonempty_trim:
  "getCleanTextContent tc s \<noteq> [] \<Longrightarrow> trim (getCleanTextContent tc s) \<noteq> []"
  by (auto simp: getCleanTextContent_def trim_trim split: if_splits)

lemma getClean_Nil: "getCleanTextContent tc [] = []"
  by (simp add: getCleanTextContent_def)

lemma make_row_three:
  "make_row [''Step Order'', ''Procedure'', ''Expected Outcome''] [a, b, c] = row_of a b c"
  by (simp add: make_row_def cell_def row_of_def enumerate_simps)

text \<open>
  C2, as stated, fails: a row whose only content is a procedure is a category row for
  \<open>processRawData\<close>, so the middle row of the grid stays a record of its own and the
  grid yields three records.
\<close>

theorem continuation_merge_counterexample:
  "processRawData plain_text
     [[''Step Order'', ''Procedure'', ''Expected Outcome''],
      [''1'', ''A'', ''''], ['''', ''B'', ''''], [''2'', ''C'', '''']] =
     Inr [row_of ''1'' ''A'' '''', row_of '''' ''B'' '''', row_of ''2'' ''C'' ''''] \<and>
   processRawData plain_text
     [[''Step Order'', ''Procedure'', ''Expected Outcome''],
      [''1'', ''A'', ''''], ['''', ''B'', ''''], [''2'', ''C'', '''']] \<noteq>
     Inr [row_of ''1'' ''AB'' '''', row_of ''2'' ''C'' '''']"
  by code_simp

text \<open>
  C2, amended.  Under the header \<open>Step Order, Procedure, Expected Outcome\<close>, the grid of
  a step row, a row with an empty identifier cell whose procedure and outcome both have
  text, and a second step row yields exactly two records: the first step row with the
  middle row's procedure and outcome appended to its own, and the second step row as it is.
\<close>

theorem continuation_merge:
  assumes header: "map (getCleanTextContent textContent) header =
                     [''Step Order'', ''Procedure'', ''Expected Outcome'']"
    and id1: "getCleanTextContent textContent id1 \<noteq> []"
    and id2: "getCleanTextContent textContent id2 \<noteq> []"
    and procB: "getCleanTextContent textContent procB \<noteq> []"
    and outB: "getCleanTextContent textContent outB \<noteq> []"
  shows "processRawData textContent
           [header, [id1, procA, outA], [[], procB, outB], [id2, procC, outC]] =
         Inr [row_of id1 (procA @ procB) (outA @ outB), row_of id2 procC outC]"
proof -
  let ?hs = "[''Step Order'', ''Procedure'', ''Expected Outcome'']"
  have fh: "find_header textContent
      [header, [id1, procA, outA], [[], procB, outB], [id2, procC, outC]] 0 = Some (0, ?hs)"
    by (simp add: header requiredHeaders_def)
  have pb: "procB \<noteq> []" and ob: "outB \<noteq> []"
    using procB outB by (auto simp: getClean_Nil)
  have s1: "merge_step textContent ?hs (row_of id1 procA outA) \<lparr>mergedRows = [], lastParentRow = None\<rparr> =
      \<lparr>mergedRows = [row_of id1 procA outA], lastParentRow = Some 0\<rparr>"
    using id1 getClean_nonempty_trim [OF id1]
    by (simp add: merge_step_def Let_def row_of_def field_def)
  have app: "fold (append_content textContent (row_of [] procB outB)) ?hs (row_of id1 procA outA) =
      row_of id1 (procA @ procB) (outA @ outB)"
    using procB outB pb ob
    by (simp add: append_content_def row_of_def field_def Let_def getClean_Nil)
  have s2: "merge_step textContent ?hs (row_of [] procB outB)
        \<lparr>mergedRows = [row_of id1 procA outA], lastParentRow = Some 0\<rparr> =
      \<lparr>mergedRows = [row_of id1 (procA @ procB) (outA @ outB)], lastParentRow = Some 0\<rparr>"
  proof -
    have f: "field (row_of [] procB outB) ''Step Order'' = []"
      "field (row_of [] procB outB) ''Expected Outcome'' = outB"
      by (simp_all add: row_of_def field_def)
    have app': "append_content textContent (row_of [] procB outB) ''Expected Outcome''
        (append_content textContent (row_of [] procB outB) ''Procedure''
          (append_content textContent (row_of [] procB outB) ''Step Order''
            (row_of id1 procA outA))) =
        row_of id1 (procA @ procB) (outA @ outB)"
      using app by simp
    show ?thesis
      using outB by (simp add: merge_step_def Let_def f getClean_Nil trim_def app')
  qed
  have s3: "merge_step textContent ?hs (row_of id2 procC outC)
        \<lparr>mergedRows = [row_of id1 (procA @ procB) (outA @ outB)], lastParentRow = Some 0\<rparr> =
      \<lparr>mergedRows = [row_of id1 (procA @ procB) (outA @ outB), row_of id2 procC outC],
        lastParentRow = Some 1\<rparr>"
    using id2 getClean_nonempty_trim [OF id2]
    by (simp add: merge_step_def Let_def row_of_def field_def)
  have "processRawData textContent
           [header, [id1, procA, outA], [[], procB, outB], [id2, procC, outC]] =
        Inr (mergedRows
               (fold (merge_step textContent ?hs)
                     (map (make_row ?hs) [[id1, procA, outA], [[], procB, outB], [id2, procC, outC]])
                     \<lparr>mergedRows = [], lastParentRow = None\<rparr>))"
    unfolding processRawData_def fh by (simp del: find_header.simps)
  then show ?thesis
    by (simp add: make_row_three s1 s2 s3 del: find_header.simps)
qed

theorem continuation_merge_witness:
  "processRawData plain_text
     [[''Step Order'', ''Procedure'', ''Expected Outcome''],
      [''1'', ''A'', ''''], ['''', ''B'', ''<i>see above</i>''], [''2'', ''C'', '''']] =
     Inr [row_of ''1'' ''AB'' ''<i>see above</i>'', row_of ''2'' ''C'' '''']"
proof -
  have h: "map (getCleanTextContent plain_text) [''Step Order'', ''Procedure'', ''Expected Outcome''] =
        [''Step Order'', ''Procedure'', ''Expected Outcome'']"
    by code_simp
  have i1: "getCleanTextContent plain_text ''1'' \<noteq> []" by code_simp
  have i2: "getCleanTextContent plain_text ''2'' \<noteq> []" by code_simp
  have pb: "getCleanTextContent plain_text ''B'' \<noteq> []" by code_simp
  have ob: "getCleanTextContent plain_text ''<i>see above</i>'' \<noteq> []" by code_simp
  from continuation_merge [OF h i1 i2 pb ob, of "''A''" "''''" "''C''" "''''"]
  show ?thesis by simp
qed

section \<open>Properties of the row matcher\<close>

text \<open>
  C3, as stated, fails: the identifiers \<open><b>1</b>\<close> and \<open>1\<close> have the same normalised
  text and neither row is a category, yet the rows are not equal in mode \<open>step\<close>, which
  compares the trimmed fields with their markup.
\<close>

theorem by_identifier_markup_counterexample:
  "\<not> is_category plain_text (row_of ''<b>1</b>'' ''P'' ''O'') \<and>
   \<not> is_category plain_text (row_of ''1'' ''P'' ''O'') \<and>
   getCleanTextContent plain_text (field (row_of ''<b>1</b>'' ''P'' ''O'') ''Step Order'') =
   getCleanTextContent plain_text (field (row_of ''1'' ''P'' ''O'') ''Step Order'') \<and>
   \<not> areRowsEqual plain_text Step (row_of ''<b>1</b>'' ''P'' ''O'') (row_of ''1'' ''P'' ''O'')"
  by code_simp

text \<open>
  C3, amended.  For every two records neither of which is a category, and of which both or
  neither have an empty normalised identifier together with an empty normalised
  procedure, \<open>areRowsEqual\<close> in mode \<open>step\<close> holds exactly when the identifier fields,
  markup included, are the same text after trimming.
\<close>

theorem by_identifier_equality:
  assumes "\<not> is_category textContent a" and "\<not> is_category textContent b"
    and "blank_row textContent a \<longleftrightarrow> blank_row textContent b"
  shows "areRowsEqual textContent Step a b \<longleftrightarrow>
         trim (field a ''Step Order'') = trim (field b ''Step Order'')"
proof -
  have v: "isCategory textContent r = (if blank_row textContent r then JString [] else JBool False)"
    if "\<not> is_category textContent r" for r
    using that by (auto simp: isCategory_def is_category_def blank_row_def)
  from assms show ?thesis
    by (simp add: areRowsEqual_def Let_def v)
qed

theorem by_identifier_equality_witness:
  "\<not> is_category plain_text (row_of '' <b>1</b>'' ''P'' ''O'') \<and>
   \<not> is_category plain_text (row_of ''<b>1</b> '' ''Q'' ''R'') \<and>
   \<not> blank_row plain_text (row_of '' <b>1</b>'' ''P'' ''O'') \<and>
   \<not> blank_row plain_text (row_of ''<b>1</b> '' ''Q'' ''R'') \<and>
   areRowsEqual plain_text Step (row_of '' <b>1</b>'' ''P'' ''O'') (row_of ''<b>1</b> '' ''Q'' ''R'') \<and>
   trim (field (row_of '' <b>1</b>'' ''P'' ''O'') ''Step Order'') =
   trim (field (row_of ''<b>1</b> '' ''Q'' ''R'') ''Step Order'')"
proof -
  let ?a = "row_of '' <b>1</b>'' ''P'' ''O''" and ?b = "row_of ''<b>1</b> '' ''Q'' ''R''"
  have ca: "\<not> is_category plain_text ?a" by code_simp
  have cb: "\<not> is_category plain_text ?b" by code_simp
  have ba: "\<not> blank_row plain_text ?a" by code_simp
  have bb: "\<not> blank_row plain_text ?b" by code_simp
  from ba bb have same: "blank_row plain_text ?a \<longleftrightarrow> blank_row plain_text ?b"
    by blast
  have t: "trim (field ?a ''Step Order'') = trim (field ?b ''Step Order'')"
    by code_simp
  with by_identifier_equality [OF ca cb same] ca cb ba bb show ?thesis by blast
qed

text \<open>
  C10.  The code at two rows that are not categories and whose identifiers are empty: one
  has only an outcome, the other a procedure and an outcome.  The category expression is
  the empty string for the first and \<open>false\<close> for the second, the strict inequality of the
  two holds, and \<open>areRowsEqual\<close> returns \<open>false\<close> in mode \<open>step\<close>.
\<close>

theorem empty_identifiers_not_matched:
  "\<not> is_category plain_text (row_of [] [] ''x'') \<and>
   \<not> is_category plain_text (row_of [] ''P'' ''y'') \<and>
   trim (field (row_of [] [] ''x'') ''Step Order'') = [] \<and>
   trim (field (row_of [] ''P'' ''y'') ''Step Order'') = [] \<and>
   isCategory plain_text (row_of [] [] ''x'') = JString [] \<and>
   isCategory plain_text (row_of [] ''P'' ''y'') = JBool False \<and>
   \<not> areRowsEqual plain_text Step (row_of [] [] ''x'') (row_of [] ''P'' ''y'')"
  by code_simp







end
